theory Spec2Isabelle
  imports Main "HOL-Library.Word" "HOL-Library.AList"
begin

section \<open>The transaction commit core of scoutfs (src/trans.c)\<close>

text \<open>
  A shallow embedding of \<^verbatim>\<open>trans.c\<close>. The C integers keep their widths:
  \<^verbatim>\<open>unsigned\<close> and \<^verbatim>\<open>int\<close> are 32-bit words (the signed ones are read with
  \<open>sint\<close>), \<^verbatim>\<open>u64\<close> is a 64-bit word. A task is named by a number; the
  per-task pointer \<^verbatim>\<open>current->journal_info\<close> is a table from tasks to reservations.
  \<^verbatim>\<open>BUG_ON\<close> is a fault value, \<^verbatim>\<open>WARN_ON_ONCE\<close> writes to a log once per
  call site. The functions of other files (item cache, segments, client, inode
  writeback) are parameters: what they answer is given, and the calls made to them are
  recorded in the order they happen.
\<close>

subsection \<open>Types\<close>

type_synonym u32 = "32 word"
type_synonym s32 = "32 word"
type_synonym u64 = "64 word"
type_synonym task = nat

definition EINVAL :: s32 where "EINVAL = 22"
definition ENOMEM :: s32 where "ENOMEM = 12"
definition ERESTARTSYS :: s32 where "ERESTARTSYS = 512"

text \<open>\<^verbatim>\<open>struct trans_info\<close> (the spinlock is not modelled: each function below is one
  critical section).\<close>

record trans_info =
  reserved_items :: u32
  reserved_vals :: u32
  holders :: u32
  writing :: bool

text \<open>\<^verbatim>\<open>struct scoutfs_item_count\<close>: two signed counts (\<^verbatim>\<open>scoutfs_trans_track_item\<close>
  adds \<^verbatim>\<open>signed\<close> arguments to them and \<^verbatim>\<open>scoutfs_hold_trans\<close> compares them with 0).\<close>

record scoutfs_item_count =
  items :: s32
  vals :: s32

definition SCOUTFS_RESERVATION_MAGIC :: u32 where
  "SCOUTFS_RESERVATION_MAGIC = 0xd57cd13b"

record scoutfs_reservation =
  magic :: u32
  rsv_holders :: u32
  reserved :: scoutfs_item_count
  actual :: scoutfs_item_count

datatype counter =
  trans_commit_timer | trans_commit_fsync | trans_commit_full
  | trans_level0_seg_writes | trans_level0_seg_write_bytes

text \<open>The two delays \<^verbatim>\<open>mod_delayed_work\<close> is called with.\<close>

datatype work_delay = Delay_0 | TRANS_SYNC_DELAY

text \<open>The call sites of \<^verbatim>\<open>WARN_ON_ONCE\<close>.\<close>

datatype warn_site =
  Warn_write_ret | Warn_hold_count | Warn_hold_fits | Warn_track_items | Warn_track_vals

text \<open>The fields of \<^verbatim>\<open>struct scoutfs_sb_info\<close> that \<^verbatim>\<open>trans.c\<close> uses, with the
  counters, the tasks' \<^verbatim>\<open>journal_info\<close> pointers and the kernel log.\<close>

record scoutfs_sb_info =
  tri :: trans_info
  trans_task :: "task option"
  trans_deadline_expired :: bool
  trans_write_count :: u64
  trans_write_ret :: s32
  trans_write_work :: "work_delay option"
  counters :: "counter \<Rightarrow> nat"
  journal_info :: "(task \<times> scoutfs_reservation) list"
  dmesg :: "warn_site list"

text \<open>What the item cache and the segment code answer to a hold:
  \<^verbatim>\<open>scoutfs_item_dirty_fits_single(sb, items, vals)\<close> and
  \<^verbatim>\<open>scoutfs_seg_fits_single(items, vals)\<close>.\<close>

record hold_env =
  item_dirty_fits_single :: "u32 \<Rightarrow> u32 \<Rightarrow> bool"
  seg_fits_single :: "s32 \<Rightarrow> s32 \<Rightarrow> bool"

text \<open>What the collaborators answer during one run of the commit work: whether the item
  cache is dirty, the return code of each step, and the size of the segment.\<close>

record commit_env =
  item_has_dirty :: bool
  inode_walk_writeback_sync :: s32
  client_alloc_segno :: s32
  seg_alloc :: s32
  item_dirty_seg :: s32
  seg_submit_write :: s32
  inode_walk_writeback_nosync :: s32
  bio_wait_comp :: s32
  client_record_segment :: s32
  client_advance_seq :: s32
  seg_total_bytes :: nat

text \<open>The calls the commit work makes to other files, as recorded.\<close>

datatype call =
  Inode_walk_writeback bool
  | Client_alloc_segno
  | Seg_alloc
  | Item_dirty_seg
  | Seg_submit_write
  | Bio_wait_comp
  | Client_record_segment nat
  | Client_advance_seq
  | Seg_put

datatype fault = BUG

subsection \<open>Kernel helpers\<close>

text \<open>\<^verbatim>\<open>WARN_ON_ONCE(cond)\<close> has the value of the condition, and logs a warning the first
  time the condition is true at that call site.\<close>

definition WARN_ON_ONCE :: "warn_site \<Rightarrow> bool \<Rightarrow> scoutfs_sb_info \<Rightarrow> bool \<times> scoutfs_sb_info" where
  "WARN_ON_ONCE site cond s =
     (cond, if cond \<and> site \<notin> set (dmesg s) then s\<lparr>dmesg := dmesg s @ [site]\<rparr> else s)"

definition scoutfs_add_counter :: "counter \<Rightarrow> nat \<Rightarrow> scoutfs_sb_info \<Rightarrow> scoutfs_sb_info" where
  "scoutfs_add_counter c n s = s\<lparr>counters := (counters s)(c := counters s c + n)\<rparr>"

definition scoutfs_inc_counter :: "counter \<Rightarrow> scoutfs_sb_info \<Rightarrow> scoutfs_sb_info" where
  "scoutfs_inc_counter c s = scoutfs_add_counter c 1 s"

text \<open>\<^verbatim>\<open>current->journal_info\<close> of task \<open>t\<close>: read, set, and clear.\<close>

definition get_journal_info :: "scoutfs_sb_info \<Rightarrow> task \<Rightarrow> scoutfs_reservation option" where
  "get_journal_info s t = map_of (journal_info s) t"

definition set_journal_info :: "task \<Rightarrow> scoutfs_reservation \<Rightarrow> scoutfs_sb_info \<Rightarrow> scoutfs_sb_info" where
  "set_journal_info t rsv s = s\<lparr>journal_info := AList.update t rsv (journal_info s)\<rparr>"

definition clear_journal_info :: "task \<Rightarrow> scoutfs_sb_info \<Rightarrow> scoutfs_sb_info" where
  "clear_journal_info t s = s\<lparr>journal_info := AList.delete t (journal_info s)\<rparr>"

text \<open>\<^verbatim>\<open>kzalloc\<close> of a reservation, with the magic set (lines 364 to 369).\<close>

definition new_reservation :: scoutfs_reservation where
  "new_reservation =
     \<lparr>magic = SCOUTFS_RESERVATION_MAGIC, rsv_holders = 0,
      reserved = \<lparr>items = 0, vals = 0\<rparr>, actual = \<lparr>items = 0, vals = 0\<rparr>\<rparr>"

subsection \<open>The commit work\<close>

definition drained_holders :: "scoutfs_sb_info \<Rightarrow> bool \<times> scoutfs_sb_info" where
  "drained_holders s =
     (let s' = s\<lparr>tri := (tri s)\<lparr>writing := True\<rparr>\<rparr>
      in (holders (tri s') = 0, s'))"

definition queue_trans_work :: "scoutfs_sb_info \<Rightarrow> scoutfs_sb_info" where
  "queue_trans_work s = s\<lparr>trans_deadline_expired := False, trans_write_work := Some Delay_0\<rparr>"

definition scoutfs_trans_restart_sync_deadline :: "scoutfs_sb_info \<Rightarrow> scoutfs_sb_info" where
  "scoutfs_trans_restart_sync_deadline s =
     s\<lparr>trans_deadline_expired := True, trans_write_work := Some TRANS_SYNC_DELAY\<rparr>"

text \<open>The C expression \<^verbatim>\<open>a ?: b\<close>: \<open>a\<close> is evaluated; when its value is not 0 that is the
  value and \<open>b\<close> is not evaluated. An operand is its value with the calls it made.\<close>

definition elvis :: "s32 \<times> call list \<Rightarrow> s32 \<times> call list \<Rightarrow> s32 \<times> call list" where
  "elvis a b = (if fst a \<noteq> 0 then a else (fst b, snd a @ snd b))"

text \<open>Lines 134 to 142.\<close>

definition commit_pipeline :: "commit_env \<Rightarrow> s32 \<times> call list" where
  "commit_pipeline env =
     elvis (inode_walk_writeback_sync env, [Inode_walk_writeback True])
    (elvis (client_alloc_segno env, [Client_alloc_segno])
    (elvis (seg_alloc env, [Seg_alloc])
    (elvis (item_dirty_seg env, [Item_dirty_seg])
    (elvis (seg_submit_write env, [Seg_submit_write])
    (elvis (inode_walk_writeback_nosync env, [Inode_walk_writeback False])
    (elvis (bio_wait_comp env, [Bio_wait_comp])
    (elvis (client_record_segment env, [Client_record_segment 0])
           (client_advance_seq env, [Client_advance_seq]))))))))"

text \<open>Lines 126 to 160: the value of \<^verbatim>\<open>ret\<close>, the calls made, and the counters.\<close>

definition trans_write_dirty :: "commit_env \<Rightarrow> scoutfs_sb_info \<Rightarrow> s32 \<times> call list \<times> scoutfs_sb_info" where
  "trans_write_dirty env s =
     (if item_has_dirty env then
        (let s1 = (if trans_deadline_expired s then scoutfs_inc_counter trans_commit_timer s else s);
             (ret, calls) = commit_pipeline env;
             calls' = calls @ [Seg_put]
         in if ret \<noteq> 0 then (ret, calls', s1)
            else (ret, calls',
                  scoutfs_add_counter trans_level0_seg_write_bytes (seg_total_bytes env)
                    (scoutfs_inc_counter trans_level0_seg_writes s1)))
      else if trans_deadline_expired s then (client_advance_seq env, [Client_advance_seq], s)
      else (0, [], s))"

text \<open>Lines 123 to 180: the work once the holders have drained.\<close>

definition trans_write_commit :: "commit_env \<Rightarrow> scoutfs_sb_info \<Rightarrow> call list \<times> scoutfs_sb_info" where
  "trans_write_commit env s =
     (let (ret, calls, s1) = trans_write_dirty env s;
          (w, s2) = WARN_ON_ONCE Warn_write_ret (ret \<noteq> 0) s1;
          s3 = s2\<lparr>trans_write_count := trans_write_count s2 + 1, trans_write_ret := ret\<rparr>;
          s4 = s3\<lparr>tri := (tri s3)\<lparr>writing := False\<rparr>\<rparr>;
          s5 = s4\<lparr>trans_task := None\<rparr>
      in (calls, scoutfs_trans_restart_sync_deadline s5))"

text \<open>\<^verbatim>\<open>wait_event(sbi->trans_hold_wq, drained_holders(tri))\<close> does not return while the
  condition is false: the work is then blocked, with the state the condition left, and
  \<open>trans_write_wait\<close> is also what happens when it is woken.\<close>

datatype write_result = Blocked scoutfs_sb_info | Finished "call list" scoutfs_sb_info

definition trans_write_wait :: "commit_env \<Rightarrow> scoutfs_sb_info \<Rightarrow> write_result" where
  "trans_write_wait env s =
     (let (drained, s1) = drained_holders s
      in if drained then (let (calls, s2) = trans_write_commit env s1 in Finished calls s2)
         else Blocked s1)"

definition scoutfs_trans_write_func :: "commit_env \<Rightarrow> task \<Rightarrow> scoutfs_sb_info \<Rightarrow> write_result" where
  "scoutfs_trans_write_func env current s = trans_write_wait env (s\<lparr>trans_task := Some current\<rparr>)"

subsection \<open>Sync\<close>

record write_attempt =
  attempt_count :: u64
  attempt_ret :: s32

definition write_attempted :: "scoutfs_sb_info \<Rightarrow> write_attempt \<Rightarrow> bool \<times> write_attempt" where
  "write_attempted s attempt =
     (if trans_write_count s > attempt_count attempt
      then (True, attempt\<lparr>attempt_ret := trans_write_ret s\<rparr>)
      else (False, attempt))"

text \<open>\<^verbatim>\<open>wait_event_interruptible\<close> evaluates the condition; when it is false and a signal is
  pending it gives \<^verbatim>\<open>-ERESTARTSYS\<close>, otherwise the task sleeps and the same happens at the
  next wake-up. One such pass, with whether a signal is pending:\<close>

datatype sync_result = Sync_returned s32 scoutfs_sb_info | Sync_waiting write_attempt scoutfs_sb_info

definition trans_sync_wait :: "bool \<Rightarrow> write_attempt \<Rightarrow> scoutfs_sb_info \<Rightarrow> sync_result" where
  "trans_sync_wait signal_pending attempt s =
     (case write_attempted s attempt of
        (True, attempt') \<Rightarrow> Sync_returned (attempt_ret attempt') s
      | (False, attempt') \<Rightarrow>
          if signal_pending then Sync_returned (- ERESTARTSYS) s else Sync_waiting attempt' s)"

text \<open>\<^verbatim>\<open>scoutfs_trans_sync\<close> up to the first evaluation of the condition (which, before the
  task has slept, does not look at signals). \<^verbatim>\<open>attempt.ret\<close> is not initialised in C and
  is not read before \<^verbatim>\<open>write_attempted\<close> has written it; here it starts as 0.\<close>

definition scoutfs_trans_sync :: "bool \<Rightarrow> scoutfs_sb_info \<Rightarrow> sync_result" where
  "scoutfs_trans_sync wait s =
     (if \<not> wait then Sync_returned 0 (queue_trans_work s)
      else
        (let attempt = \<lparr>attempt_count = trans_write_count s, attempt_ret = 0\<rparr>;
             s1 = queue_trans_work s
         in trans_sync_wait False attempt s1))"

definition scoutfs_file_fsync :: "scoutfs_sb_info \<Rightarrow> sync_result" where
  "scoutfs_file_fsync s = scoutfs_trans_sync True (scoutfs_inc_counter trans_commit_fsync s)"

subsection \<open>Holding, tracking and releasing\<close>

text \<open>The label \<^verbatim>\<open>hold:\<close> of \<^verbatim>\<open>acquired_hold\<close> (lines 332 to 335).\<close>

definition hold_label :: "scoutfs_sb_info \<Rightarrow> scoutfs_reservation \<Rightarrow> bool \<times> scoutfs_reservation \<times> scoutfs_sb_info" where
  "hold_label s rsv =
     (True, rsv\<lparr>rsv_holders := rsv_holders rsv + 1\<rparr>,
      s\<lparr>tri := (tri s)\<lparr>holders := holders (tri s) + 1\<rparr>\<rparr>)"

text \<open>\<^verbatim>\<open>acquired_hold(sb, rsv, cnt)\<close>: whether the hold was acquired, the reservation and
  the state it leaves. The sums are those of \<^verbatim>\<open>unsigned\<close>: they wrap.\<close>

definition acquired_hold ::
  "hold_env \<Rightarrow> scoutfs_sb_info \<Rightarrow> scoutfs_reservation \<Rightarrow> scoutfs_item_count
   \<Rightarrow> bool \<times> scoutfs_reservation \<times> scoutfs_sb_info" where
  "acquired_hold p s rsv cnt =
     (if rsv_holders rsv \<noteq> 0 then hold_label s rsv
      else if writing (tri s) then (False, rsv, s)
      else
        (let its = reserved_items (tri s) + items cnt;
             vls = reserved_vals (tri s) + vals cnt;
             fits = item_dirty_fits_single p its vls
         in if \<not> fits then (False, rsv, queue_trans_work (scoutfs_inc_counter trans_commit_full s))
            else hold_label
                   (s\<lparr>tri := (tri s)\<lparr>reserved_items := its, reserved_vals := vls\<rparr>\<rparr>)
                   (rsv\<lparr>reserved := \<lparr>items = items cnt, vals = vals cnt\<rparr>\<rparr>)))"

datatype hold_result = Hold_returned s32 scoutfs_sb_info | Hold_waiting scoutfs_sb_info | Hold_BUG

text \<open>One pass of the wait loop of
  \<^verbatim>\<open>wait_event_interruptible(sbi->trans_hold_wq, acquired_hold(sb, rsv, &cnt))\<close>, with
  lines 376 to 380: the condition is evaluated first; a pending signal counts only when
  it is false; otherwise the task sleeps.\<close>

definition hold_trans_wait ::
  "hold_env \<Rightarrow> bool \<Rightarrow> task \<Rightarrow> scoutfs_reservation \<Rightarrow> scoutfs_item_count \<Rightarrow> scoutfs_sb_info
   \<Rightarrow> hold_result" where
  "hold_trans_wait p signal_pending current rsv cnt s =
     (let (acquired, rsv', s1) = acquired_hold p s rsv cnt;
          s2 = set_journal_info current rsv' s1
      in if acquired then Hold_returned 0 s2
         else if signal_pending then
           Hold_returned (- ERESTARTSYS)
             (if rsv_holders rsv' = 0 then clear_journal_info current s2 else s2)
         else Hold_waiting s2)"

text \<open>\<^verbatim>\<open>scoutfs_hold_trans\<close> before it waits (lines 355 to 372): it returns at once, stops
  at the \<^verbatim>\<open>BUG_ON\<close>, or goes on to wait with the reservation \<^verbatim>\<open>rsv\<close> points to.
  \<open>alloc_ok\<close> says whether \<^verbatim>\<open>kzalloc\<close> succeeds.\<close>

datatype hold_entry =
  Entry_returned s32 scoutfs_sb_info | Entry_BUG | Entry_wait scoutfs_reservation scoutfs_sb_info

definition hold_trans_entry ::
  "hold_env \<Rightarrow> bool \<Rightarrow> task \<Rightarrow> scoutfs_item_count \<Rightarrow> scoutfs_sb_info \<Rightarrow> hold_entry" where
  "hold_trans_entry p alloc_ok current cnt s =
     (let (w1, s1) = WARN_ON_ONCE Warn_hold_count (sint (items cnt) \<le> 0 \<or> sint (vals cnt) < 0) s
      in if w1 then Entry_returned (- EINVAL) s1
      else
        (let (w2, s2) = WARN_ON_ONCE Warn_hold_fits (\<not> seg_fits_single p (items cnt) (vals cnt)) s1
         in if w2 then Entry_returned (- EINVAL) s2
         else if trans_task s2 = Some current then Entry_returned 0 s2
         else
           (case get_journal_info s2 current of
              None \<Rightarrow>
                if \<not> alloc_ok then Entry_returned (- ENOMEM) s2
                else Entry_wait new_reservation (set_journal_info current new_reservation s2)
            | Some rsv \<Rightarrow>
                if magic rsv \<noteq> SCOUTFS_RESERVATION_MAGIC then Entry_BUG
                else Entry_wait rsv s2)))"

text \<open>\<^verbatim>\<open>wait_event_interruptible\<close> first evaluates the condition, and has the value 0 when
  it holds. When it does not, the task enters the wait loop, where the condition is
  evaluated again before the task sleeps for the first time: \<open>hold_wait_event\<close> is the
  wait up to the moment the task returns or sleeps, with lines 376 to 380.\<close>

definition hold_wait_event ::
  "hold_env \<Rightarrow> bool \<Rightarrow> task \<Rightarrow> scoutfs_reservation \<Rightarrow> scoutfs_item_count \<Rightarrow> scoutfs_sb_info
   \<Rightarrow> hold_result" where
  "hold_wait_event p signal_pending current rsv cnt s =
     (let (acquired, rsv', s1) = acquired_hold p s rsv cnt;
          s2 = set_journal_info current rsv' s1
      in if acquired then Hold_returned 0 s2
         else hold_trans_wait p signal_pending current rsv' cnt s2)"

text \<open>\<^verbatim>\<open>scoutfs_hold_trans\<close>, up to the moment it returns or the caller sleeps, when no
  other task acts in between.\<close>

definition scoutfs_hold_trans ::
  "hold_env \<Rightarrow> bool \<Rightarrow> bool \<Rightarrow> task \<Rightarrow> scoutfs_item_count \<Rightarrow> scoutfs_sb_info \<Rightarrow> hold_result" where
  "scoutfs_hold_trans p alloc_ok signal_pending current cnt s =
     (case hold_trans_entry p alloc_ok current cnt s of
        Entry_returned r s' \<Rightarrow> Hold_returned r s'
      | Entry_BUG \<Rightarrow> Hold_BUG
      | Entry_wait rsv s' \<Rightarrow> hold_wait_event p signal_pending current rsv cnt s')"

text \<open>Other tasks may act between the first evaluation of the condition and the wait
  loop. \<open>hold_trans_begin\<close> is \<^verbatim>\<open>scoutfs_hold_trans\<close> up to that first evaluation only (which
  does not look at signals); \<open>Hold_waiting\<close> then says that the condition was false.\<close>

definition hold_trans_begin ::
  "hold_env \<Rightarrow> bool \<Rightarrow> task \<Rightarrow> scoutfs_item_count \<Rightarrow> scoutfs_sb_info \<Rightarrow> hold_result" where
  "hold_trans_begin p alloc_ok current cnt s =
     (case hold_trans_entry p alloc_ok current cnt s of
        Entry_returned r s' \<Rightarrow> Hold_returned r s'
      | Entry_BUG \<Rightarrow> Hold_BUG
      | Entry_wait rsv s' \<Rightarrow> hold_trans_wait p False current rsv cnt s')"

text \<open>A task in the wait loop of \<^verbatim>\<open>scoutfs_hold_trans\<close> makes one more pass, on the
  reservation its \<^verbatim>\<open>journal_info\<close> points to.\<close>

definition hold_trans_woken ::
  "hold_env \<Rightarrow> bool \<Rightarrow> task \<Rightarrow> scoutfs_item_count \<Rightarrow> scoutfs_sb_info \<Rightarrow> hold_result option" where
  "hold_trans_woken p signal_pending current cnt s =
     (case get_journal_info s current of
        None \<Rightarrow> None
      | Some rsv \<Rightarrow> Some (hold_trans_wait p signal_pending current rsv cnt s))"

definition scoutfs_trans_held :: "task \<Rightarrow> scoutfs_sb_info \<Rightarrow> bool" where
  "scoutfs_trans_held current s =
     (case get_journal_info s current of
        None \<Rightarrow> False
      | Some rsv \<Rightarrow> magic rsv = SCOUTFS_RESERVATION_MAGIC)"

text \<open>\<^verbatim>\<open>scoutfs_trans_track_item\<close>. The comparisons are those of \<^verbatim>\<open>int\<close>.\<close>

definition scoutfs_trans_track_item ::
  "task \<Rightarrow> s32 \<Rightarrow> s32 \<Rightarrow> scoutfs_sb_info \<Rightarrow> fault + scoutfs_sb_info" where
  "scoutfs_trans_track_item current its vls s =
     (if trans_task s = Some current then Inr s
      else
        (case get_journal_info s current of
           None \<Rightarrow> Inl BUG
         | Some rsv \<Rightarrow>
             if magic rsv \<noteq> SCOUTFS_RESERVATION_MAGIC then Inl BUG
             else
               (let rsv' = rsv\<lparr>actual := \<lparr>items = items (actual rsv) + its,
                                           vals = vals (actual rsv) + vls\<rparr>\<rparr>;
                    s1 = set_journal_info current rsv' s;
                    (w1, s2) = WARN_ON_ONCE Warn_track_items
                                 (sint (items (actual rsv')) > sint (items (reserved rsv'))) s1;
                    (w2, s3) = WARN_ON_ONCE Warn_track_vals
                                 (sint (vals (actual rsv')) > sint (vals (reserved rsv'))) s2
                in Inr s3)))"

text \<open>\<^verbatim>\<open>scoutfs_release_trans\<close>: the new state, with whether the hold waitqueue is woken.\<close>

definition scoutfs_release_trans :: "task \<Rightarrow> scoutfs_sb_info \<Rightarrow> fault + (bool \<times> scoutfs_sb_info)" where
  "scoutfs_release_trans current s =
     (if trans_task s = Some current then Inr (False, s)
      else
        (case get_journal_info s current of
           None \<Rightarrow> Inl BUG
         | Some rsv \<Rightarrow>
             if magic rsv \<noteq> SCOUTFS_RESERVATION_MAGIC then Inl BUG
             else if rsv_holders rsv = 0 then Inl BUG
             else if holders (tri s) = 0 then Inl BUG
             else
               (let rsv' = rsv\<lparr>rsv_holders := rsv_holders rsv - 1\<rparr>;
                    (wake1, s1) =
                      (if rsv_holders rsv' = 0 then
                         (True,
                          clear_journal_info current
                            (s\<lparr>tri := (tri s)
                                 \<lparr>reserved_items := reserved_items (tri s) - items (reserved rsv'),
                                  reserved_vals := reserved_vals (tri s) - vals (reserved rsv')\<rparr>\<rparr>))
                       else (False, set_journal_info current rsv' s));
                    s2 = s1\<lparr>tri := (tri s1)\<lparr>holders := holders (tri s1) - 1\<rparr>\<rparr>;
                    wake2 = (if holders (tri s2) = 0 then True else wake1)
                in Inr (wake2, s2))))"

text \<open>\<^verbatim>\<open>scoutfs_setup_trans\<close>: \<^verbatim>\<open>kzalloc\<close> gives a zeroed \<^verbatim>\<open>trans_info\<close>; either allocation
  may fail.\<close>

definition scoutfs_setup_trans :: "bool \<Rightarrow> bool \<Rightarrow> scoutfs_sb_info \<Rightarrow> s32 \<times> scoutfs_sb_info" where
  "scoutfs_setup_trans tri_ok workq_ok s =
     (if \<not> tri_ok then (- ENOMEM, s)
      else if \<not> workq_ok then (- ENOMEM, s)
      else (0, s\<lparr>tri := \<lparr>reserved_items = 0, reserved_vals = 0, holders = 0, writing = False\<rparr>\<rparr>))"

subsection \<open>Interleavings\<close>

text \<open>The tasks of the system act one critical section at a time. An operation is a call
  of one of the functions above by a task, or one pass of a wait loop. A call of
  \<^verbatim>\<open>scoutfs_hold_trans\<close> is the operation \<open>Hold\<close> (the call up to the first evaluation of
  the condition) followed, when the condition was false, by passes \<open>Hold_woken\<close> of its
  wait loop, each with the count that was asked for; other tasks may act in between.\<close>

datatype op =
  Hold task scoutfs_item_count bool
  | Hold_woken task scoutfs_item_count bool
  | Track task s32 s32
  | Release task
  | Write_func task commit_env
  | Write_woken commit_env
  | Sync bool

text \<open>The state after an operation; \<open>None\<close> when the kernel stops at a \<^verbatim>\<open>BUG_ON\<close>, or when
  a task is woken that holds no pointer to a reservation.\<close>

fun step :: "hold_env \<Rightarrow> scoutfs_sb_info \<Rightarrow> op \<Rightarrow> scoutfs_sb_info option" where
  "step p s (Hold t cnt alloc_ok) =
     (case hold_trans_begin p alloc_ok t cnt s of
        Hold_returned r s' \<Rightarrow> Some s' | Hold_waiting s' \<Rightarrow> Some s' | Hold_BUG \<Rightarrow> None)"
| "step p s (Hold_woken t cnt signal_pending) =
     (case hold_trans_woken p signal_pending t cnt s of
        None \<Rightarrow> None
      | Some (Hold_returned r s') \<Rightarrow> Some s'
      | Some (Hold_waiting s') \<Rightarrow> Some s'
      | Some Hold_BUG \<Rightarrow> None)"
| "step p s (Track t its vls) =
     (case scoutfs_trans_track_item t its vls s of Inl f \<Rightarrow> None | Inr s' \<Rightarrow> Some s')"
| "step p s (Release t) =
     (case scoutfs_release_trans t s of Inl f \<Rightarrow> None | Inr (wake, s') \<Rightarrow> Some s')"
| "step p s (Write_func t env) =
     (case scoutfs_trans_write_func env t s of Blocked s' \<Rightarrow> Some s' | Finished calls s' \<Rightarrow> Some s')"
| "step p s (Write_woken env) =
     (case trans_write_wait env s of Blocked s' \<Rightarrow> Some s' | Finished calls s' \<Rightarrow> Some s')"
| "step p s (Sync wait) =
     (case scoutfs_trans_sync wait s of Sync_returned r s' \<Rightarrow> Some s' | Sync_waiting a s' \<Rightarrow> Some s')"

text \<open>A sequence of operations, each with what the item cache and the segment code answer
  at that moment.\<close>

fun run :: "scoutfs_sb_info \<Rightarrow> (hold_env \<times> op) list \<Rightarrow> scoutfs_sb_info option" where
  "run s [] = Some s"
| "run s ((p, x) # xs) = (case step p s x of None \<Rightarrow> None | Some s' \<Rightarrow> run s' xs)"

text \<open>The sums over the live reservations, in the arithmetic of the fields.\<close>

definition sum_reserved_items :: "scoutfs_sb_info \<Rightarrow> u32" where
  "sum_reserved_items s = sum_list (map (\<lambda>(t, rsv). items (reserved rsv)) (journal_info s))"

definition sum_reserved_vals :: "scoutfs_sb_info \<Rightarrow> u32" where
  "sum_reserved_vals s = sum_list (map (\<lambda>(t, rsv). vals (reserved rsv)) (journal_info s))"

definition sum_holders :: "scoutfs_sb_info \<Rightarrow> u32" where
  "sum_holders s = sum_list (map (\<lambda>(t, rsv). rsv_holders rsv) (journal_info s))"

subsection \<open>What the commit work is expected to do\<close>

text \<open>The order of the pipeline as the specification lists it, the return codes of its
  steps in that order, how many steps run when the first failure stops the rest, and the
  code that is remembered.\<close>

definition pipeline_order :: "call list" where
  "pipeline_order =
     [Inode_walk_writeback True, Client_alloc_segno, Seg_alloc, Item_dirty_seg, Seg_submit_write,
      Inode_walk_writeback False, Bio_wait_comp, Client_record_segment 0, Client_advance_seq]"

definition pipeline_rets :: "commit_env \<Rightarrow> s32 list" where
  "pipeline_rets env =
     [inode_walk_writeback_sync env, client_alloc_segno env, seg_alloc env, item_dirty_seg env,
      seg_submit_write env, inode_walk_writeback_nosync env, bio_wait_comp env,
      client_record_segment env, client_advance_seq env]"

definition steps_run :: "s32 list \<Rightarrow> nat" where
  "steps_run rets = Suc (length (takeWhile (\<lambda>r. r = 0) rets))"

definition first_failure :: "s32 list \<Rightarrow> s32" where
  "first_failure rets = (case dropWhile (\<lambda>r. r = 0) rets of [] \<Rightarrow> 0 | r # rs \<Rightarrow> r)"

text \<open>The result of one commit attempt.\<close>

definition attempt_result :: "commit_env \<Rightarrow> scoutfs_sb_info \<Rightarrow> s32" where
  "attempt_result env s =
     (if item_has_dirty env then first_failure (pipeline_rets env)
      else if trans_deadline_expired s then client_advance_seq env
      else 0)"

fun write_state :: "write_result \<Rightarrow> scoutfs_sb_info" where
  "write_state (Blocked s) = s"
| "write_state (Finished calls s) = s"

fun write_calls :: "write_result \<Rightarrow> call list option" where
  "write_calls (Blocked s) = None"
| "write_calls (Finished calls s) = Some calls"

subsection \<open>The item store across attempts\<close>



subsection \<open>The sums of the reservations\<close>

text \<open>The sums the manager keeps are those of the live reservations.\<close>

definition trans_sums :: "scoutfs_sb_info \<Rightarrow> bool" where
  "trans_sums s \<longleftrightarrow>
     reserved_items (tri s) = sum_reserved_items s
     \<and> reserved_vals (tri s) = sum_reserved_vals s
     \<and> holders (tri s) = sum_holders s"

text \<open>What holds along a run besides the sums: no task has two reservations, and a
  reservation without holders (one whose owner waits for its first hold) has reserved
  nothing.\<close>

definition trans_inv :: "scoutfs_sb_info \<Rightarrow> bool" where
  "trans_inv s \<longleftrightarrow>
     distinct (map fst (journal_info s)) \<and> trans_sums s
     \<and> (\<forall>(t, rsv) \<in> set (journal_info s).
           rsv_holders rsv = 0 \<longrightarrow> items (reserved rsv) = 0 \<and> vals (reserved rsv) = 0)"

text \<open>The holders count of a reservation is an \<^verbatim>\<open>unsigned\<close>: a hold by a task whose
  count is at \<open>2^32 - 1\<close> makes it wrap to 0. \<open>holders_room\<close> says that an operation is not
  such a hold, \<open>nesting_bounded\<close> that no operation of a run is.\<close>

fun holders_room :: "scoutfs_sb_info \<Rightarrow> op \<Rightarrow> bool" where
  "holders_room s (Hold t cnt alloc_ok) =
     (case get_journal_info s t of None \<Rightarrow> True | Some rsv \<Rightarrow> rsv_holders rsv \<noteq> - 1)"
| "holders_room s (Hold_woken t cnt signal_pending) =
     (case get_journal_info s t of None \<Rightarrow> True | Some rsv \<Rightarrow> rsv_holders rsv \<noteq> - 1)"
| "holders_room s x = True"

fun nesting_bounded :: "scoutfs_sb_info \<Rightarrow> (hold_env \<times> op) list \<Rightarrow> bool" where
  "nesting_bounded s [] = True"
| "nesting_bounded s ((p, x) # xs) =
     (holders_room s x \<and> (case step p s x of None \<Rightarrow> True | Some s' \<Rightarrow> nesting_bounded s' xs))"

subsection \<open>Example states and answers\<close>

definition idle_state :: scoutfs_sb_info where
  "idle_state =
     \<lparr>tri = \<lparr>reserved_items = 0, reserved_vals = 0, holders = 0, writing = False\<rparr>,
      trans_task = None, trans_deadline_expired = False, trans_write_count = 0,
      trans_write_ret = 0, trans_write_work = None, counters = (\<lambda>c. 0),
      journal_info = [], dmesg = []\<rparr>"

definition roomy :: hold_env where
  "roomy = \<lparr>item_dirty_fits_single = (\<lambda>i v. i \<le> 100 \<and> v \<le> 4096),
            seg_fits_single = (\<lambda>i v. sint i \<le> 100 \<and> sint v \<le> 4096)\<rparr>"

definition commit_ok :: commit_env where
  "commit_ok =
     \<lparr>item_has_dirty = True, inode_walk_writeback_sync = 0, client_alloc_segno = 0,
      seg_alloc = 0, item_dirty_seg = 0, seg_submit_write = 0, inode_walk_writeback_nosync = 0,
      bio_wait_comp = 0, client_record_segment = 0, client_advance_seq = 0,
      seg_total_bytes = 4096\<rparr>"

definition submit_fails :: commit_env where
  "submit_fails = commit_ok\<lparr>seg_submit_write := - 5\<rparr>"

definition nothing_dirty :: commit_env where
  "nothing_dirty = commit_ok\<lparr>item_has_dirty := False\<rparr>"

definition deadline_state :: scoutfs_sb_info where
  "deadline_state = idle_state\<lparr>trans_deadline_expired := True\<rparr>"

text \<open>The commit work of task 7 has drained the holders and is writing.\<close>

definition committing_state :: scoutfs_sb_info where
  "committing_state =
     idle_state\<lparr>tri := (tri idle_state)\<lparr>writing := True\<rparr>, trans_task := Some 7\<rparr>"

text \<open>Task 1 holds the transaction with a reservation of 10 items and 1024 bytes.\<close>

definition held_state :: scoutfs_sb_info where
  "held_state =
     idle_state\<lparr>tri := \<lparr>reserved_items = 10, reserved_vals = 1024, holders = 1, writing = False\<rparr>,
                journal_info := [(1, new_reservation\<lparr>rsv_holders := 1,
                                        reserved := \<lparr>items = 10, vals = 1024\<rparr>\<rparr>)]\<rparr>"

text \<open>Task 1 holds 90 items and the commit work of task 7 waits for it to release.\<close>

definition draining_state :: scoutfs_sb_info where
  "draining_state =
     idle_state\<lparr>tri := \<lparr>reserved_items = 90, reserved_vals = 0, holders = 1, writing = True\<rparr>,
                trans_task := Some 7,
                journal_info := [(1, new_reservation\<lparr>rsv_holders := 1,
                                        reserved := \<lparr>items = 90, vals = 0\<rparr>\<rparr>)]\<rparr>"

text \<open>Task 1 holds one item, with \<open>k\<close> nested holds; the state after one more hold when
  the count has wrapped to 0; and a short run of two tasks.\<close>

definition nested_state :: "u32 \<Rightarrow> scoutfs_sb_info" where
  "nested_state k =
     idle_state\<lparr>tri := \<lparr>reserved_items = 1, reserved_vals = 0, holders = k, writing = False\<rparr>,
                journal_info := [(1, new_reservation\<lparr>rsv_holders := k,
                                        reserved := \<lparr>items = 1, vals = 0\<rparr>\<rparr>)]\<rparr>"

definition wrapped_state :: scoutfs_sb_info where
  "wrapped_state =
     idle_state\<lparr>tri := \<lparr>reserved_items = 2, reserved_vals = 0, holders = 1, writing = False\<rparr>,
                journal_info := [(1, new_reservation\<lparr>rsv_holders := 1,
                                        reserved := \<lparr>items = 1, vals = 0\<rparr>\<rparr>)]\<rparr>"

definition example_ops :: "(hold_env \<times> op) list" where
  "example_ops =
     [(roomy, Hold 1 \<lparr>items = 10, vals = 1024\<rparr> True),
      (roomy, Hold 2 \<lparr>items = 20, vals = 0\<rparr> True),
      (roomy, Hold 1 \<lparr>items = 5, vals = 5\<rparr> True),
      (roomy, Track 1 3 100),
      (roomy, Release 1),
      (roomy, Release 2)]"


section \<open>Properties\<close>

subsection \<open>The commit pipeline\<close>

lemma commit_pipeline_prefix:
  "commit_pipeline env =
     (first_failure (pipeline_rets env), take (steps_run (pipeline_rets env)) pipeline_order)"
  by (simp add: commit_pipeline_def elvis_def first_failure_def pipeline_rets_def steps_run_def
      pipeline_order_def)

lemma write_func_drained:
  "holders (tri s) = 0 \<Longrightarrow>
   scoutfs_trans_write_func env t s =
     Finished (fst (trans_write_commit env (s\<lparr>trans_task := Some t, tri := (tri s)\<lparr>writing := True\<rparr>\<rparr>)))
              (snd (trans_write_commit env (s\<lparr>trans_task := Some t, tri := (tri s)\<lparr>writing := True\<rparr>\<rparr>)))"
  by (simp add: scoutfs_trans_write_func_def trans_write_wait_def drained_holders_def Let_def
      split: prod.splits)


lemma calls_commit:
  "fst (trans_write_commit env s) = fst (snd (trans_write_dirty env s))"
  by (simp add: trans_write_commit_def WARN_ON_ONCE_def scoutfs_trans_restart_sync_deadline_def
      split: prod.splits)

lemma write_ret_commit:
  "trans_write_ret (snd (trans_write_commit env s)) = fst (trans_write_dirty env s)"
  by (simp add: trans_write_commit_def WARN_ON_ONCE_def scoutfs_trans_restart_sync_deadline_def
      split: prod.splits)

lemma write_count_commit:
  "trans_write_count (snd (trans_write_commit env s)) =
     trans_write_count (snd (snd (trans_write_dirty env s))) + 1"
  by (simp add: trans_write_commit_def WARN_ON_ONCE_def scoutfs_trans_restart_sync_deadline_def
      split: prod.splits)

lemma counters_commit:
  "counters (snd (trans_write_commit env s)) = counters (snd (snd (trans_write_dirty env s)))"
  by (simp add: trans_write_commit_def WARN_ON_ONCE_def scoutfs_trans_restart_sync_deadline_def
      split: prod.splits)

lemma trans_write_dirty_dirty:
  "item_has_dirty env \<Longrightarrow>
   fst (trans_write_dirty env s) = first_failure (pipeline_rets env) \<and>
   fst (snd (trans_write_dirty env s)) = take (steps_run (pipeline_rets env)) pipeline_order @ [Seg_put]"
  by (simp add: trans_write_dirty_def commit_pipeline_prefix Let_def)

lemma trans_write_dirty_ret: "fst (trans_write_dirty env s) = attempt_result env s"
  by (simp add: trans_write_dirty_def commit_pipeline_prefix Let_def attempt_result_def)

lemma trans_write_dirty_count:
  "trans_write_count (snd (snd (trans_write_dirty env s))) = trans_write_count s"
  by (simp add: trans_write_dirty_def commit_pipeline_prefix Let_def scoutfs_inc_counter_def
      scoutfs_add_counter_def)

text \<open>
  \<^bold>\<open>C1.\<close> In a commit run where the item cache is dirty (the holders have drained, so the
  run goes on), the calls made are the steps of the pipeline in the listed order, up to
  and including the first one that returns an error, or all nine when none does; then
  the segment reference is dropped. No step after the failing one is called, nothing is
  called to take back a step already made, and the code of the failing step is the
  result that is recorded.
\<close>

theorem commit_pipeline_in_order:
  assumes "item_has_dirty env" and "holders (tri s) = 0"
  shows "write_calls (scoutfs_trans_write_func env t s) =
           Some (take (steps_run (pipeline_rets env)) pipeline_order @ [Seg_put])
         \<and> trans_write_ret (write_state (scoutfs_trans_write_func env t s)) =
             first_failure (pipeline_rets env)"
  using assms
  by (simp add: write_func_drained calls_commit write_ret_commit trans_write_dirty_dirty)

theorem commit_pipeline_in_order_witness:
  "item_has_dirty submit_fails \<and> holders (tri idle_state) = 0
   \<and> write_calls (scoutfs_trans_write_func submit_fails 7 idle_state) =
       Some [Inode_walk_writeback True, Client_alloc_segno, Seg_alloc, Item_dirty_seg,
             Seg_submit_write, Seg_put]
   \<and> trans_write_ret (write_state (scoutfs_trans_write_func submit_fails 7 idle_state)) = - 5
   \<and> write_calls (scoutfs_trans_write_func commit_ok 7 idle_state) =
       Some (pipeline_order @ [Seg_put])"
  using commit_pipeline_in_order [of submit_fails idle_state 7]
    commit_pipeline_in_order [of commit_ok idle_state 7]
  by (simp add: submit_fails_def commit_ok_def idle_state_def pipeline_rets_def steps_run_def
      first_failure_def pipeline_order_def)

lemma trans_write_dirty_idle:
  "\<not> item_has_dirty env \<Longrightarrow> trans_deadline_expired s \<Longrightarrow>
   trans_write_dirty env s = (client_advance_seq env, [Client_advance_seq], s)"
  by (simp add: trans_write_dirty_def)

text \<open>
  \<^bold>\<open>C4\<close>, as the claim states it, fails: in a commit run with nothing dirty and the
  deadline expired the counter \<open>trans_commit_timer\<close> is not incremented (line 128 is
  inside the branch for a dirty item cache).
\<close>

theorem empty_commit_counter_counterexample:
  "\<not> item_has_dirty nothing_dirty \<and> trans_deadline_expired deadline_state
   \<and> holders (tri deadline_state) = 0
   \<and> counters (write_state (scoutfs_trans_write_func nothing_dirty 7 deadline_state)) trans_commit_timer
       \<noteq> counters deadline_state trans_commit_timer + 1"
  by (simp add: write_func_drained counters_commit trans_write_dirty_idle
      nothing_dirty_def commit_ok_def deadline_state_def idle_state_def)

lemma timer_write_dirty:
  "counters (snd (snd (trans_write_dirty env s))) trans_commit_timer =
     counters s trans_commit_timer + (if item_has_dirty env \<and> trans_deadline_expired s then 1 else 0)"
  by (simp add: trans_write_dirty_def commit_pipeline_prefix Let_def scoutfs_inc_counter_def
      scoutfs_add_counter_def)

text \<open>
  \<^bold>\<open>C4\<close>, amended. In a commit run with nothing dirty and the deadline expired, the only
  call made is one \<open>advance_seq\<close> (so no segment number and no segment is allocated), its
  return code is the recorded result, and every counter, \<open>trans_commit_timer\<close> among them,
  keeps its value. In every commit run, \<open>trans_commit_timer\<close> grows by one when the item
  cache is dirty and the deadline has expired, and keeps its value otherwise.
\<close>

theorem empty_commit_at_deadline:
  assumes "holders (tri s) = 0"
  shows "(\<not> item_has_dirty env \<and> trans_deadline_expired s \<longrightarrow>
            write_calls (scoutfs_trans_write_func env t s) = Some [Client_advance_seq]
            \<and> counters (write_state (scoutfs_trans_write_func env t s)) = counters s
            \<and> trans_write_ret (write_state (scoutfs_trans_write_func env t s)) =
                client_advance_seq env)
         \<and> counters (write_state (scoutfs_trans_write_func env t s)) trans_commit_timer =
             counters s trans_commit_timer
             + (if item_has_dirty env \<and> trans_deadline_expired s then 1 else 0)"
  using assms
  by (simp add: write_func_drained calls_commit counters_commit write_ret_commit
      trans_write_dirty_idle timer_write_dirty)

theorem empty_commit_at_deadline_witness:
  "holders (tri deadline_state) = 0
   \<and> \<not> item_has_dirty nothing_dirty \<and> trans_deadline_expired deadline_state
   \<and> write_calls (scoutfs_trans_write_func nothing_dirty 7 deadline_state) = Some [Client_advance_seq]
   \<and> counters (write_state (scoutfs_trans_write_func nothing_dirty 7 deadline_state)) trans_commit_timer = 0
   \<and> item_has_dirty commit_ok
   \<and> counters (write_state (scoutfs_trans_write_func commit_ok 7 deadline_state)) trans_commit_timer = 1
   \<and> \<not> trans_deadline_expired idle_state
   \<and> counters (write_state (scoutfs_trans_write_func commit_ok 7 idle_state)) trans_commit_timer = 0"
  using empty_commit_at_deadline [of deadline_state nothing_dirty 7]
    empty_commit_at_deadline [of deadline_state commit_ok 7]
    empty_commit_at_deadline [of idle_state commit_ok 7]
  by (simp add: nothing_dirty_def commit_ok_def deadline_state_def idle_state_def)

subsection \<open>Sync and the result of an attempt\<close>


text \<open>
  \<^bold>\<open>C5.\<close> \<open>scoutfs_trans_sync\<close> without \<open>wait\<close> queues the commit work with no delay and
  returns 0. With \<open>wait\<close> it takes \<open>trans_write_count\<close> as it is before it queues the
  work, and then waits. Whenever the waiting task looks again: if the count is now above
  the one it took, it returns the \<open>trans_write_ret\<close> of that moment; if not, it returns
  \<open>-ERESTARTSYS\<close> when a signal is pending and goes on waiting otherwise.
\<close>

theorem sync_protocol:
  "scoutfs_trans_sync False s = Sync_returned 0 (queue_trans_work s)
   \<and> scoutfs_trans_sync True s =
       Sync_waiting \<lparr>attempt_count = trans_write_count s, attempt_ret = 0\<rparr> (queue_trans_work s)
   \<and> trans_write_work (queue_trans_work s) = Some Delay_0
   \<and> (attempt_count a < trans_write_count s' \<longrightarrow>
        trans_sync_wait signal_pending a s' = Sync_returned (trans_write_ret s') s')
   \<and> (\<not> attempt_count a < trans_write_count s' \<longrightarrow>
        trans_sync_wait True a s' = Sync_returned (- ERESTARTSYS) s'
        \<and> trans_sync_wait False a s' = Sync_waiting a s')"
  by (simp add: scoutfs_trans_sync_def trans_sync_wait_def write_attempted_def queue_trans_work_def)

theorem sync_protocol_witness:
  "attempt_count \<lparr>attempt_count = 0, attempt_ret = 0\<rparr>
     < trans_write_count (write_state (scoutfs_trans_write_func submit_fails 7 idle_state))
   \<and> trans_sync_wait True \<lparr>attempt_count = 0, attempt_ret = 0\<rparr>
       (write_state (scoutfs_trans_write_func submit_fails 7 idle_state)) =
       Sync_returned (- 5) (write_state (scoutfs_trans_write_func submit_fails 7 idle_state))
   \<and> \<not> attempt_count \<lparr>attempt_count = 0, attempt_ret = 0\<rparr> < trans_write_count idle_state
   \<and> trans_sync_wait True \<lparr>attempt_count = 0, attempt_ret = 0\<rparr> idle_state =
       Sync_returned (- ERESTARTSYS) idle_state
   \<and> trans_sync_wait False \<lparr>attempt_count = 0, attempt_ret = 0\<rparr> idle_state =
       Sync_waiting \<lparr>attempt_count = 0, attempt_ret = 0\<rparr> idle_state"
  using sync_protocol [of idle_state "\<lparr>attempt_count = 0, attempt_ret = 0\<rparr>"
      "write_state (scoutfs_trans_write_func submit_fails 7 idle_state)" True]
    sync_protocol [of idle_state "\<lparr>attempt_count = 0, attempt_ret = 0\<rparr>" idle_state True]
  by (simp add: write_func_drained write_count_commit write_ret_commit trans_write_dirty_ret
      trans_write_dirty_count attempt_result_def first_failure_def pipeline_rets_def
      submit_fails_def commit_ok_def idle_state_def)

lemma tri_write_dirty: "tri (snd (snd (trans_write_dirty env s))) = tri s"
  by (simp add: trans_write_dirty_def commit_pipeline_prefix Let_def scoutfs_inc_counter_def
      scoutfs_add_counter_def)






lemma run_append:
  "run s (xs @ ys) = (case run s xs of None \<Rightarrow> None | Some s' \<Rightarrow> run s' ys)"
  by (induction xs arbitrary: s) (auto split: option.splits)







subsection \<open>Holding, tracking and releasing\<close>

lemma hold_entry_valid_count:
  assumes "0 < sint (items cnt)" "0 \<le> sint (vals cnt)" "seg_fits_single p (items cnt) (vals cnt)"
  shows "hold_trans_entry p alloc_ok t cnt s =
     (if trans_task s = Some t then Entry_returned 0 s
      else
        (case get_journal_info s t of
           None \<Rightarrow>
             if \<not> alloc_ok then Entry_returned (- ENOMEM) s
             else Entry_wait new_reservation (set_journal_info t new_reservation s)
         | Some rsv \<Rightarrow>
             if magic rsv \<noteq> SCOUTFS_RESERVATION_MAGIC then Entry_BUG
             else Entry_wait rsv s))"
  using assms by (simp add: hold_trans_entry_def WARN_ON_ONCE_def)

lemma hold_entry_invalid_count:
  assumes "sint (items cnt) \<le> 0 \<or> sint (vals cnt) < 0 \<or> \<not> seg_fits_single p (items cnt) (vals cnt)"
  shows "\<exists>log. hold_trans_entry p alloc_ok t cnt s = Entry_returned (- EINVAL) (s\<lparr>dmesg := log\<rparr>)"
proof (cases "sint (items cnt) \<le> 0 \<or> sint (vals cnt) < 0")
  case True
  then show ?thesis
    by (auto simp add: hold_trans_entry_def WARN_ON_ONCE_def intro: exI [of _ "dmesg s"])
next
  case False
  with assms have "\<not> seg_fits_single p (items cnt) (vals cnt)" by blast
  with False show ?thesis
    by (auto simp add: hold_trans_entry_def WARN_ON_ONCE_def intro: exI [of _ "dmesg s"])
qed

text \<open>
  \<^bold>\<open>C8.\<close> A hold whose count has \<open>items \<le> 0\<close> or \<open>vals < 0\<close>, or does not fit a segment by
  itself, returns \<open>-EINVAL\<close>; the state it leaves differs from the one before at most in
  the kernel log (the warning), so \<open>trans_info\<close> and every reservation are as before.
\<close>

theorem hold_invalid_argument:
  assumes "sint (items cnt) \<le> 0 \<or> sint (vals cnt) < 0 \<or> \<not> seg_fits_single p (items cnt) (vals cnt)"
  shows "\<exists>log. scoutfs_hold_trans p alloc_ok signal_pending t cnt s =
           Hold_returned (- EINVAL) (s\<lparr>dmesg := log\<rparr>)"
proof -
  from hold_entry_invalid_count [OF assms, of alloc_ok t s]
  obtain log where "hold_trans_entry p alloc_ok t cnt s = Entry_returned (- EINVAL) (s\<lparr>dmesg := log\<rparr>)"
    by blast
  then have "scoutfs_hold_trans p alloc_ok signal_pending t cnt s =
           Hold_returned (- EINVAL) (s\<lparr>dmesg := log\<rparr>)"
    by (simp add: scoutfs_hold_trans_def)
  then show ?thesis by blast
qed

theorem hold_invalid_argument_witness:
  "(sint (items \<lparr>items = 101, vals = 0\<rparr>) \<le> 0 \<or> sint (vals \<lparr>items = 101, vals = 0\<rparr>) < 0
      \<or> \<not> seg_fits_single roomy (items \<lparr>items = 101, vals = 0\<rparr>) (vals \<lparr>items = 101, vals = 0\<rparr>))
   \<and> (\<exists>log. scoutfs_hold_trans roomy True False 1 \<lparr>items = 101, vals = 0\<rparr> held_state =
              Hold_returned (- EINVAL) (held_state\<lparr>dmesg := log\<rparr>))"
  using hold_invalid_argument [of "\<lparr>items = 101, vals = 0\<rparr>" roomy True False 1 held_state]
  by (simp add: roomy_def)

text \<open>
  \<^bold>\<open>C7.\<close> For the task that runs the commit, a hold (with a count that passes the check
  of the arguments, which comes first for every caller) returns 0 at once and leaves the
  whole state, so also the table of reservations, as it is: no reservation is allocated.
  Track and release return with the state unchanged, and release wakes nobody.
\<close>

theorem commit_task_bypasses:
  assumes "trans_task s = Some t"
    and "0 < sint (items cnt)" and "0 \<le> sint (vals cnt)"
    and "seg_fits_single p (items cnt) (vals cnt)"
  shows "scoutfs_hold_trans p alloc_ok signal_pending t cnt s = Hold_returned 0 s
         \<and> scoutfs_trans_track_item t its vls s = Inr s
         \<and> scoutfs_release_trans t s = Inr (False, s)"
  using assms
  by (simp add: scoutfs_hold_trans_def hold_entry_valid_count scoutfs_trans_track_item_def
      scoutfs_release_trans_def)

theorem commit_task_bypasses_witness:
  "trans_task committing_state = Some 7
   \<and> scoutfs_hold_trans roomy True True 7 \<lparr>items = 10, vals = 1024\<rparr> committing_state =
       Hold_returned 0 committing_state
   \<and> scoutfs_trans_track_item 7 5 200 committing_state = Inr committing_state
   \<and> scoutfs_release_trans 7 committing_state = Inr (False, committing_state)"
  using commit_task_bypasses [of committing_state 7 "\<lparr>items = 10, vals = 1024\<rparr>" roomy True True 5 200]
  by (simp add: committing_state_def idle_state_def roomy_def)

text \<open>
  \<^bold>\<open>C9\<close>, as the claim states it, fails. Task 1 holds 10 items and tracks 11, then 1 more:
  the reservation then has \<open>actual.items = 12\<close> above \<open>reserved.items = 10\<close>, and the log has
  one warning for the two calls.
\<close>

theorem track_exceeds_counterexample:
  "run idle_state
     [(roomy, Hold 1 \<lparr>items = 10, vals = 1024\<rparr> True), (roomy, Track 1 11 0), (roomy, Track 1 1 0)] =
   Some (held_state
     \<lparr>journal_info := [(1, new_reservation\<lparr>rsv_holders := 1,
                           reserved := \<lparr>items = 10, vals = 1024\<rparr>,
                           actual := \<lparr>items = 12, vals = 0\<rparr>\<rparr>)],
      dmesg := [Warn_track_items]\<rparr>)
   \<and> sint (10 :: s32) < sint (12 :: s32)"
  by (simp add: hold_trans_begin_def hold_trans_entry_def WARN_ON_ONCE_def idle_state_def
      roomy_def held_state_def get_journal_info_def set_journal_info_def hold_trans_wait_def
      acquired_hold_def hold_label_def new_reservation_def scoutfs_trans_track_item_def Let_def)

text \<open>
  \<^bold>\<open>C9\<close>, amended. A track call by a task that holds a reservation (and is not the commit
  task) adds the two amounts to \<open>actual\<close>, whether or not the sums stay within \<open>reserved\<close>,
  and changes nothing else but the log. The log grows by the warning of the items check
  exactly when the new \<open>actual.items\<close> is above \<open>reserved.items\<close> and that check has not
  warned before, and then by the warning of the vals check under the same condition for
  \<open>vals\<close>: a violation is logged the first time each check fires, and a later violation
  at the same check leaves the log as it is.
\<close>

theorem track_item_warns:
  assumes "trans_task s \<noteq> Some t" and "get_journal_info s t = Some rsv"
    and "magic rsv = SCOUTFS_RESERVATION_MAGIC"
  shows "scoutfs_trans_track_item t its vls s =
           Inr (s\<lparr>journal_info :=
                    AList.update t
                      (rsv\<lparr>actual := \<lparr>items = items (actual rsv) + its,
                                      vals = vals (actual rsv) + vls\<rparr>\<rparr>)
                      (journal_info s),
                  dmesg :=
                    dmesg s
                    @ (if sint (items (reserved rsv)) < sint (items (actual rsv) + its)
                          \<and> Warn_track_items \<notin> set (dmesg s)
                       then [Warn_track_items] else [])
                    @ (if sint (vals (reserved rsv)) < sint (vals (actual rsv) + vls)
                          \<and> Warn_track_vals \<notin> set (dmesg s)
                       then [Warn_track_vals] else [])\<rparr>)"
  using assms
  by (simp add: scoutfs_trans_track_item_def WARN_ON_ONCE_def set_journal_info_def Let_def)

theorem track_item_warns_witness:
  "trans_task held_state \<noteq> Some 1
   \<and> scoutfs_trans_track_item 1 11 0 held_state =
       Inr (held_state
         \<lparr>journal_info := [(1, new_reservation\<lparr>rsv_holders := 1,
                               reserved := \<lparr>items = 10, vals = 1024\<rparr>,
                               actual := \<lparr>items = 11, vals = 0\<rparr>\<rparr>)],
          dmesg := [Warn_track_items]\<rparr>)
   \<and> scoutfs_trans_track_item 1 11 0 (held_state\<lparr>dmesg := [Warn_track_items]\<rparr>) =
       Inr (held_state
         \<lparr>journal_info := [(1, new_reservation\<lparr>rsv_holders := 1,
                               reserved := \<lparr>items = 10, vals = 1024\<rparr>,
                               actual := \<lparr>items = 11, vals = 0\<rparr>\<rparr>)],
          dmesg := [Warn_track_items]\<rparr>)"
  using track_item_warns [of held_state 1
      "new_reservation\<lparr>rsv_holders := 1, reserved := \<lparr>items = 10, vals = 1024\<rparr>\<rparr>" 11 0]
    track_item_warns [of "held_state\<lparr>dmesg := [Warn_track_items]\<rparr>" 1
      "new_reservation\<lparr>rsv_holders := 1, reserved := \<lparr>items = 10, vals = 1024\<rparr>\<rparr>" 11 0]
  by (simp add: held_state_def idle_state_def get_journal_info_def new_reservation_def)

lemma delete_update_absent:
  "map_of al t = None \<Longrightarrow> AList.delete t (AList.update t r al) = al"
  by (simp add: delete_update_same map_of_eq_None_iff)

text \<open>
  \<^bold>\<open>C3.\<close> The capacity is looked at by \<open>acquired_hold\<close> on a first hold (a reservation
  with no holders) once the test of \<open>writing\<close> has let it through. When the reserved
  sums with the count added do not fit, that evaluation does not acquire, adds one to
  \<open>trans_commit_full\<close>, queues the commit work with no delay and leaves \<open>trans_info\<close> and
  the reservation as they are. A hold by a task with no reservation (not the commit task,
  count passing the check, memory available) is then not admitted: the condition is
  evaluated twice before the caller sleeps, so the counter has grown by two when it
  sleeps, and with a signal pending the caller returns \<open>-ERESTARTSYS\<close> with its
  reservation freed. Whenever \<open>acquired_hold\<close> acquires on a first hold, the reserved sums
  it leaves fit. While \<open>writing\<close> is set, a first hold is not admitted and the state is
  left as it is.
\<close>

theorem first_hold_capacity:
  "(rsv_holders rsv = 0 \<and> \<not> writing (tri s)
      \<and> \<not> item_dirty_fits_single p (reserved_items (tri s) + items cnt)
                                        (reserved_vals (tri s) + vals cnt) \<longrightarrow>
      acquired_hold p s rsv cnt =
        (False, rsv, queue_trans_work (scoutfs_inc_counter trans_commit_full s))
      \<and> counters (queue_trans_work (scoutfs_inc_counter trans_commit_full s)) trans_commit_full =
          counters s trans_commit_full + 1
      \<and> trans_write_work (queue_trans_work (scoutfs_inc_counter trans_commit_full s)) = Some Delay_0
      \<and> tri (queue_trans_work (scoutfs_inc_counter trans_commit_full s)) = tri s)
   \<and> (\<not> writing (tri s)
      \<and> \<not> item_dirty_fits_single p (reserved_items (tri s) + items cnt)
                                        (reserved_vals (tri s) + vals cnt)
      \<and> trans_task s \<noteq> Some t \<and> get_journal_info s t = None
      \<and> 0 < sint (items cnt) \<and> 0 \<le> sint (vals cnt)
      \<and> seg_fits_single p (items cnt) (vals cnt) \<longrightarrow>
      scoutfs_hold_trans p True False t cnt s =
        Hold_waiting
          (s\<lparr>trans_deadline_expired := False, trans_write_work := Some Delay_0,
             counters := (counters s)(trans_commit_full := counters s trans_commit_full + 2),
             journal_info := AList.update t new_reservation (journal_info s)\<rparr>)
      \<and> scoutfs_hold_trans p True True t cnt s =
        Hold_returned (- ERESTARTSYS)
          (s\<lparr>trans_deadline_expired := False, trans_write_work := Some Delay_0,
             counters := (counters s)(trans_commit_full := counters s trans_commit_full + 2)\<rparr>))
   \<and> (rsv_holders rsv = 0 \<and> fst (acquired_hold p s rsv cnt) \<longrightarrow>
        item_dirty_fits_single p
          (reserved_items (tri (snd (snd (acquired_hold p s rsv cnt)))))
          (reserved_vals (tri (snd (snd (acquired_hold p s rsv cnt))))))
   \<and> (rsv_holders rsv = 0 \<and> writing (tri s) \<longrightarrow> acquired_hold p s rsv cnt = (False, rsv, s))"
proof -
  have admitted: "rsv_holders rsv = 0 \<and> fst (acquired_hold p s rsv cnt) \<longrightarrow>
        item_dirty_fits_single p
          (reserved_items (tri (snd (snd (acquired_hold p s rsv cnt)))))
          (reserved_vals (tri (snd (snd (acquired_hold p s rsv cnt)))))"
    by (simp add: acquired_hold_def hold_label_def Let_def split: if_splits)
  have denied: "rsv_holders rsv = 0 \<and> \<not> writing (tri s)
      \<and> \<not> item_dirty_fits_single p (reserved_items (tri s) + items cnt)
                                        (reserved_vals (tri s) + vals cnt) \<longrightarrow>
      acquired_hold p s rsv cnt =
        (False, rsv, queue_trans_work (scoutfs_inc_counter trans_commit_full s))
      \<and> counters (queue_trans_work (scoutfs_inc_counter trans_commit_full s)) trans_commit_full =
          counters s trans_commit_full + 1
      \<and> trans_write_work (queue_trans_work (scoutfs_inc_counter trans_commit_full s)) = Some Delay_0
      \<and> tri (queue_trans_work (scoutfs_inc_counter trans_commit_full s)) = tri s"
    by (simp add: acquired_hold_def Let_def queue_trans_work_def scoutfs_inc_counter_def
        scoutfs_add_counter_def)
  have sleeps: "\<not> writing (tri s)
      \<and> \<not> item_dirty_fits_single p (reserved_items (tri s) + items cnt)
                                        (reserved_vals (tri s) + vals cnt)
      \<and> trans_task s \<noteq> Some t \<and> get_journal_info s t = None
      \<and> 0 < sint (items cnt) \<and> 0 \<le> sint (vals cnt)
      \<and> seg_fits_single p (items cnt) (vals cnt) \<longrightarrow>
      scoutfs_hold_trans p True False t cnt s =
        Hold_waiting
          (s\<lparr>trans_deadline_expired := False, trans_write_work := Some Delay_0,
             counters := (counters s)(trans_commit_full := counters s trans_commit_full + 2),
             journal_info := AList.update t new_reservation (journal_info s)\<rparr>)
      \<and> scoutfs_hold_trans p True True t cnt s =
        Hold_returned (- ERESTARTSYS)
          (s\<lparr>trans_deadline_expired := False, trans_write_work := Some Delay_0,
             counters := (counters s)(trans_commit_full := counters s trans_commit_full + 2)\<rparr>)"
    by (simp add: scoutfs_hold_trans_def hold_entry_valid_count hold_wait_event_def
        hold_trans_wait_def acquired_hold_def Let_def queue_trans_work_def
        scoutfs_inc_counter_def scoutfs_add_counter_def new_reservation_def
        set_journal_info_def clear_journal_info_def get_journal_info_def delete_update_absent)
  have writing: "rsv_holders rsv = 0 \<and> writing (tri s) \<longrightarrow>
      acquired_hold p s rsv cnt = (False, rsv, s)"
    by (simp add: acquired_hold_def)
  from admitted denied sleeps writing show ?thesis by blast
qed

theorem first_hold_capacity_witness:
  "\<not> writing (tri held_state)
   \<and> \<not> item_dirty_fits_single roomy (reserved_items (tri held_state) + 95)
                                     (reserved_vals (tri held_state) + 0)
   \<and> trans_task held_state \<noteq> Some 2 \<and> get_journal_info held_state 2 = None
   \<and> seg_fits_single roomy 95 0
   \<and> scoutfs_hold_trans roomy True False 2 \<lparr>items = 95, vals = 0\<rparr> held_state =
       Hold_waiting
         (held_state
            \<lparr>trans_deadline_expired := False, trans_write_work := Some Delay_0,
             counters := (counters held_state)
                           (trans_commit_full := counters held_state trans_commit_full + 2),
             journal_info := AList.update 2 new_reservation (journal_info held_state)\<rparr>)
   \<and> fst (acquired_hold roomy held_state new_reservation \<lparr>items = 50, vals = 0\<rparr>)
   \<and> item_dirty_fits_single roomy 60 1024
   \<and> writing (tri draining_state)
   \<and> acquired_hold roomy draining_state new_reservation \<lparr>items = 20, vals = 0\<rparr> =
       (False, new_reservation, draining_state)"
proof -
  have h: "\<not> writing (tri held_state)"
    "\<not> item_dirty_fits_single roomy (reserved_items (tri held_state) + 95)
                                     (reserved_vals (tri held_state) + 0)"
    "trans_task held_state \<noteq> Some 2" "get_journal_info held_state 2 = None"
    "seg_fits_single roomy 95 0" "rsv_holders new_reservation = 0"
    "writing (tri draining_state)"
    by (simp_all add: held_state_def draining_state_def idle_state_def roomy_def
        get_journal_info_def new_reservation_def)
  have a: "fst (acquired_hold roomy held_state new_reservation \<lparr>items = 50, vals = 0\<rparr>)"
    by (simp add: held_state_def idle_state_def roomy_def new_reservation_def acquired_hold_def
        hold_label_def)
  have f: "item_dirty_fits_single roomy 60 1024" by (simp add: roomy_def)
  from first_hold_capacity [of new_reservation held_state roomy "\<lparr>items = 95, vals = 0\<rparr>" 2]
    first_hold_capacity [of new_reservation draining_state roomy "\<lparr>items = 20, vals = 0\<rparr>" 2]
    h a f
  show ?thesis by simp
qed

text \<open>
  \<^bold>\<open>C10.\<close> For a task (not the one that runs the commit) that owns a reservation with
  holders, a nested hold (with a count that passes the check of the arguments, which
  comes first for every caller) returns 0 at the first evaluation of the condition,
  whether \<open>writing\<close> is set or not and whether a signal is pending or not: it never
  waits and never returns \<open>-ERESTARTSYS\<close>. It adds one to the holders of the reservation
  and one to the holders of \<open>trans_info\<close> and changes nothing else: the reserved sums and
  the reservation's \<open>reserved\<close> are as before. A pass of the wait loop on such a
  reservation does the same.
\<close>

theorem nested_hold_immediate:
  assumes "trans_task s \<noteq> Some t" and "get_journal_info s t = Some rsv"
    and "magic rsv = SCOUTFS_RESERVATION_MAGIC" and "rsv_holders rsv \<noteq> 0"
    and "0 < sint (items cnt)" and "0 \<le> sint (vals cnt)"
    and "seg_fits_single p (items cnt) (vals cnt)"
  shows "scoutfs_hold_trans p alloc_ok signal_pending t cnt s =
           Hold_returned 0
             (s\<lparr>tri := (tri s)\<lparr>holders := holders (tri s) + 1\<rparr>,
                journal_info :=
                  AList.update t (rsv\<lparr>rsv_holders := rsv_holders rsv + 1\<rparr>) (journal_info s)\<rparr>)
         \<and> hold_trans_woken p signal_pending t cnt s =
             Some (scoutfs_hold_trans p alloc_ok signal_pending t cnt s)"
  using assms
  by (simp add: scoutfs_hold_trans_def hold_entry_valid_count hold_wait_event_def
      hold_trans_woken_def hold_trans_wait_def acquired_hold_def hold_label_def
      set_journal_info_def)

theorem nested_hold_immediate_witness:
  "trans_task draining_state \<noteq> Some 1 \<and> writing (tri draining_state)
   \<and> scoutfs_hold_trans roomy True True 1 \<lparr>items = 20, vals = 2048\<rparr> draining_state =
       Hold_returned 0
         (draining_state
            \<lparr>tri := \<lparr>reserved_items = 90, reserved_vals = 0, holders = 2, writing = True\<rparr>,
             journal_info := [(1, new_reservation\<lparr>rsv_holders := 2,
                                        reserved := \<lparr>items = 90, vals = 0\<rparr>\<rparr>)]\<rparr>)"
  using nested_hold_immediate [of draining_state 1
      "new_reservation\<lparr>rsv_holders := 1, reserved := \<lparr>items = 90, vals = 0\<rparr>\<rparr>"
      "\<lparr>items = 20, vals = 2048\<rparr>" roomy True True]
  by (simp add: draining_state_def idle_state_def get_journal_info_def new_reservation_def roomy_def)

subsection \<open>The sums of the reservations\<close>

lemma sum_list_update:
  fixes f :: "task \<times> scoutfs_reservation \<Rightarrow> u32"
  shows "map_of al t = Some r \<Longrightarrow>
         sum_list (map f (AList.update t r' al)) = sum_list (map f al) - f (t, r) + f (t, r')"
  by (induction al) (auto split: if_splits)

lemma sum_list_update_new:
  fixes f :: "task \<times> scoutfs_reservation \<Rightarrow> u32"
  shows "map_of al t = None \<Longrightarrow>
         sum_list (map f (AList.update t r' al)) = sum_list (map f al) + f (t, r')"
  by (induction al) (auto split: if_splits)

lemma sum_list_delete:
  fixes f :: "task \<times> scoutfs_reservation \<Rightarrow> u32"
  shows "distinct (map fst al) \<Longrightarrow> map_of al t = Some r \<Longrightarrow>
         sum_list (map f (AList.delete t al)) = sum_list (map f al) - f (t, r)"
  by (induction al) (auto split: if_splits)

lemma set_update_subset: "set (AList.update t r al) \<subseteq> insert (t, r) (set al)"
  by (induction al) auto

lemma set_delete_subset: "set (AList.delete t al) \<subseteq> set al"
  by (induction al) auto

lemma trans_inv_replace:
  assumes "trans_inv s" and "get_journal_info s t = Some r"
    and "journal_info s' = AList.update t r' (journal_info s)"
    and "reserved_items (tri s') = reserved_items (tri s) - items (reserved r) + items (reserved r')"
    and "reserved_vals (tri s') = reserved_vals (tri s) - vals (reserved r) + vals (reserved r')"
    and "holders (tri s') = holders (tri s) - rsv_holders r + rsv_holders r'"
    and "rsv_holders r' = 0 \<longrightarrow> items (reserved r') = 0 \<and> vals (reserved r') = 0"
  shows "trans_inv s'"
proof -
  have m: "map_of (journal_info s) t = Some r"
    using assms(2) by (simp add: get_journal_info_def)
  have d: "distinct (map fst (journal_info s'))"
    using assms(1,3) by (simp add: trans_inv_def distinct_update)
  have sums: "trans_sums s'"
    using assms(1,3,4,5,6)
    by (simp add: trans_inv_def trans_sums_def sum_reserved_items_def sum_reserved_vals_def
        sum_holders_def sum_list_update [OF m])
  have z: "\<forall>(u, rsv) \<in> set (journal_info s').
             rsv_holders rsv = 0 \<longrightarrow> items (reserved rsv) = 0 \<and> vals (reserved rsv) = 0"
    using assms(1,3,7) set_update_subset [of t r' "journal_info s"]
    by (auto simp add: trans_inv_def)
  from d sums z show ?thesis by (simp add: trans_inv_def)
qed

lemma trans_inv_insert:
  assumes "trans_inv s" and "get_journal_info s t = None"
    and "journal_info s' = AList.update t new_reservation (journal_info s)"
    and "tri s' = tri s"
  shows "trans_inv s'"
proof -
  have m: "map_of (journal_info s) t = None"
    using assms(2) by (simp add: get_journal_info_def)
  have d: "distinct (map fst (journal_info s'))"
    using assms(1,3) by (simp add: trans_inv_def distinct_update)
  have sums: "trans_sums s'"
    using assms(1,3,4)
    by (simp add: trans_inv_def trans_sums_def sum_reserved_items_def sum_reserved_vals_def
        sum_holders_def sum_list_update_new [OF m] new_reservation_def)
  have z: "\<forall>(u, rsv) \<in> set (journal_info s').
             rsv_holders rsv = 0 \<longrightarrow> items (reserved rsv) = 0 \<and> vals (reserved rsv) = 0"
    using assms(1,3) set_update_subset [of t new_reservation "journal_info s"]
    by (auto simp add: trans_inv_def new_reservation_def)
  from d sums z show ?thesis by (simp add: trans_inv_def)
qed

lemma trans_inv_remove:
  assumes "trans_inv s" and "get_journal_info s t = Some r"
    and "journal_info s' = AList.delete t (journal_info s)"
    and "reserved_items (tri s') = reserved_items (tri s) - items (reserved r)"
    and "reserved_vals (tri s') = reserved_vals (tri s) - vals (reserved r)"
    and "holders (tri s') = holders (tri s) - rsv_holders r"
  shows "trans_inv s'"
proof -
  have m: "map_of (journal_info s) t = Some r"
    using assms(2) by (simp add: get_journal_info_def)
  have d0: "distinct (map fst (journal_info s))"
    using assms(1) by (simp add: trans_inv_def)
  have d: "distinct (map fst (journal_info s'))"
    using d0 assms(3) by (simp add: distinct_delete)
  have sums: "trans_sums s'"
    using assms(1,3,4,5,6)
    by (simp add: trans_inv_def trans_sums_def sum_reserved_items_def sum_reserved_vals_def
        sum_holders_def sum_list_delete [OF d0 m])
  have z: "\<forall>(u, rsv) \<in> set (journal_info s').
             rsv_holders rsv = 0 \<longrightarrow> items (reserved rsv) = 0 \<and> vals (reserved rsv) = 0"
    using assms(1,3) set_delete_subset [of t "journal_info s"]
    by (auto simp add: trans_inv_def)
  from d sums z show ?thesis by (simp add: trans_inv_def)
qed

lemma trans_inv_same:
  "trans_inv s \<Longrightarrow> journal_info s' = journal_info s \<Longrightarrow>
   reserved_items (tri s') = reserved_items (tri s) \<Longrightarrow>
   reserved_vals (tri s') = reserved_vals (tri s) \<Longrightarrow>
   holders (tri s') = holders (tri s) \<Longrightarrow> trans_inv s'"
  by (simp add: trans_inv_def trans_sums_def sum_reserved_items_def sum_reserved_vals_def
      sum_holders_def)

lemma trans_inv_lookup:
  "trans_inv s \<Longrightarrow> get_journal_info s t = Some r \<Longrightarrow> rsv_holders r = 0 \<Longrightarrow>
   items (reserved r) = 0 \<and> vals (reserved r) = 0"
  by (auto simp add: trans_inv_def get_journal_info_def dest!: map_of_SomeD)

lemma trans_inv_dmesg: "trans_inv (s\<lparr>dmesg := l\<rparr>) = trans_inv s"
  by (simp add: trans_inv_def trans_sums_def sum_reserved_items_def sum_reserved_vals_def
      sum_holders_def)

lemma word_succ_neq_0: "(h :: u32) \<noteq> - 1 \<Longrightarrow> h + 1 \<noteq> 0"
  by (metis add.commute add_eq_0_iff)

lemma acquired_hold_effect:
  assumes "acquired_hold p s rsv cnt = (b, rsv', s')"
    and "rsv_holders rsv = 0 \<longrightarrow> items (reserved rsv) = 0 \<and> vals (reserved rsv) = 0"
    and "rsv_holders rsv \<noteq> - 1"
  shows "journal_info s' = journal_info s
    \<and> reserved_items (tri s') = reserved_items (tri s) - items (reserved rsv) + items (reserved rsv')
    \<and> reserved_vals (tri s') = reserved_vals (tri s) - vals (reserved rsv) + vals (reserved rsv')
    \<and> holders (tri s') = holders (tri s) - rsv_holders rsv + rsv_holders rsv'
    \<and> (rsv_holders rsv' = 0 \<longrightarrow> items (reserved rsv') = 0 \<and> vals (reserved rsv') = 0)"
  using assms word_succ_neq_0 [of "rsv_holders rsv"]
  by (auto simp add: acquired_hold_def hold_label_def Let_def queue_trans_work_def
      scoutfs_inc_counter_def scoutfs_add_counter_def split: if_splits)

lemma hold_trans_wait_inv:
  assumes "trans_inv s" and "get_journal_info s t = Some rsv" and "rsv_holders rsv \<noteq> - 1"
  shows "case hold_trans_wait p sg t rsv cnt s of
           Hold_returned r s' \<Rightarrow> trans_inv s'
         | Hold_waiting s' \<Rightarrow> trans_inv s'
         | Hold_BUG \<Rightarrow> True"
proof -
  obtain b rsv' s1 where a: "acquired_hold p s rsv cnt = (b, rsv', s1)"
    by (cases "acquired_hold p s rsv cnt") auto
  have z: "rsv_holders rsv = 0 \<longrightarrow> items (reserved rsv) = 0 \<and> vals (reserved rsv) = 0"
    using trans_inv_lookup [OF assms(1,2)] by simp
  note e = acquired_hold_effect [OF a z assms(3)]
  let ?s2 = "set_journal_info t rsv' s1"
  have i2: "trans_inv ?s2"
    by (rule trans_inv_replace [OF assms(1,2), where r' = rsv'])
      (use e in \<open>simp_all add: set_journal_info_def\<close>)
  have g2: "get_journal_info ?s2 t = Some rsv'"
    by (simp add: get_journal_info_def set_journal_info_def update_conv')
  have i3: "rsv_holders rsv' = 0 \<Longrightarrow> trans_inv (clear_journal_info t ?s2)"
    by (rule trans_inv_remove [OF i2 g2])
      (use trans_inv_lookup [OF i2 g2] in \<open>simp_all add: clear_journal_info_def\<close>)
  show ?thesis
    using i2 i3 by (simp add: hold_trans_wait_def a Let_def)
qed

lemma hold_trans_inv:
  assumes "trans_inv s" and "holders_room s (Hold t cnt alloc_ok)"
  shows "case hold_trans_begin p alloc_ok t cnt s of
           Hold_returned r s' \<Rightarrow> trans_inv s'
         | Hold_waiting s' \<Rightarrow> trans_inv s'
         | Hold_BUG \<Rightarrow> True"
proof (cases "0 < sint (items cnt) \<and> 0 \<le> sint (vals cnt) \<and> seg_fits_single p (items cnt) (vals cnt)")
  case False
  then have "sint (items cnt) \<le> 0 \<or> sint (vals cnt) < 0 \<or> \<not> seg_fits_single p (items cnt) (vals cnt)"
    by auto
  from hold_entry_invalid_count [OF this, of alloc_ok t s] show ?thesis
    using assms(1) by (auto simp add: hold_trans_begin_def trans_inv_dmesg)
next
  case True
  note v = hold_entry_valid_count [of cnt p alloc_ok t s]
  show ?thesis
  proof (cases "get_journal_info s t")
    case None
    let ?s1 = "set_journal_info t new_reservation s"
    have i1: "trans_inv ?s1"
      by (rule trans_inv_insert [OF assms(1) None]) (simp_all add: set_journal_info_def)
    have g1: "get_journal_info ?s1 t = Some new_reservation"
      by (simp add: get_journal_info_def set_journal_info_def update_conv')
    have "rsv_holders new_reservation \<noteq> - 1" by (simp add: new_reservation_def)
    from hold_trans_wait_inv [OF i1 g1 this, of p False cnt] show ?thesis
      using True None assms(1) by (simp add: hold_trans_begin_def v)
  next
    case (Some rsv)
    have "rsv_holders rsv \<noteq> - 1" using assms(2) Some by simp
    from hold_trans_wait_inv [OF assms(1) Some this, of p False cnt] show ?thesis
      using True Some assms(1) by (simp add: hold_trans_begin_def v)
  qed
qed

lemma hold_woken_inv:
  assumes "trans_inv s" and "holders_room s (Hold_woken t cnt sg)"
    and "hold_trans_woken p sg t cnt s = Some res"
  shows "case res of
           Hold_returned r s' \<Rightarrow> trans_inv s'
         | Hold_waiting s' \<Rightarrow> trans_inv s'
         | Hold_BUG \<Rightarrow> True"
proof (cases "get_journal_info s t")
  case None
  then show ?thesis using assms(3) by (simp add: hold_trans_woken_def)
next
  case (Some rsv)
  have "rsv_holders rsv \<noteq> - 1" using assms(2) Some by simp
  from hold_trans_wait_inv [OF assms(1) Some this, of p sg cnt] show ?thesis
    using assms(3) Some by (auto simp add: hold_trans_woken_def)
qed

lemma track_inv:
  assumes "trans_inv s" and "scoutfs_trans_track_item t its vls s = Inr s'"
  shows "trans_inv s'"
proof (cases "trans_task s = Some t")
  case True
  then show ?thesis using assms by (simp add: scoutfs_trans_track_item_def)
next
  case False
  then obtain rsv where g: "get_journal_info s t = Some rsv"
    using assms(2) by (cases "get_journal_info s t") (simp_all add: scoutfs_trans_track_item_def)
  let ?r = "rsv\<lparr>actual := \<lparr>items = items (actual rsv) + its, vals = vals (actual rsv) + vls\<rparr>\<rparr>"
  have i1: "trans_inv (set_journal_info t ?r s)"
    by (rule trans_inv_replace [OF assms(1) g, where r' = ?r])
      (use trans_inv_lookup [OF assms(1) g] in \<open>simp_all add: set_journal_info_def\<close>)
  show ?thesis
    using assms(2) False g i1
    by (auto simp add: scoutfs_trans_track_item_def WARN_ON_ONCE_def Let_def trans_inv_dmesg
        split: if_splits)
qed

lemma release_inv:
  assumes "trans_inv s" and "scoutfs_release_trans t s = Inr (wake, s')"
  shows "trans_inv s'"
proof (cases "trans_task s = Some t")
  case True
  then show ?thesis using assms by (simp add: scoutfs_release_trans_def)
next
  case False
  then obtain rsv where g: "get_journal_info s t = Some rsv"
    using assms(2) by (cases "get_journal_info s t") (simp_all add: scoutfs_release_trans_def)
  have ok: "magic rsv = SCOUTFS_RESERVATION_MAGIC" "rsv_holders rsv \<noteq> 0" "holders (tri s) \<noteq> 0"
    using assms(2) False g by (auto simp add: scoutfs_release_trans_def split: if_splits)
  show ?thesis
  proof (cases "rsv_holders rsv - 1 = 0")
    case True
    then have one: "rsv_holders rsv = 1" by simp
    have s': "journal_info s' = AList.delete t (journal_info s)"
      "reserved_items (tri s') = reserved_items (tri s) - items (reserved rsv)"
      "reserved_vals (tri s') = reserved_vals (tri s) - vals (reserved rsv)"
      "holders (tri s') = holders (tri s) - 1"
      using assms(2) False g ok True
      by (auto simp add: scoutfs_release_trans_def Let_def clear_journal_info_def)
    show ?thesis
      by (rule trans_inv_remove [OF assms(1) g]) (simp_all add: s' one)
  next
    case F: False
    have s': "journal_info s' =
                AList.update t (rsv\<lparr>rsv_holders := rsv_holders rsv - 1\<rparr>) (journal_info s)"
      "reserved_items (tri s') = reserved_items (tri s)"
      "reserved_vals (tri s') = reserved_vals (tri s)"
      "holders (tri s') = holders (tri s) - 1"
      using assms(2) False g ok F
      by (auto simp add: scoutfs_release_trans_def Let_def set_journal_info_def)
    show ?thesis
      by (rule trans_inv_replace [OF assms(1) g,
            where r' = "rsv\<lparr>rsv_holders := rsv_holders rsv - 1\<rparr>"])
        (use F in \<open>simp_all add: s'\<close>)
  qed
qed

lemma journal_info_write_dirty: "journal_info (snd (snd (trans_write_dirty env s))) = journal_info s"
  by (simp add: trans_write_dirty_def commit_pipeline_prefix Let_def scoutfs_inc_counter_def
      scoutfs_add_counter_def)

lemma write_commit_frame:
  "journal_info (snd (trans_write_commit env s)) = journal_info s
   \<and> reserved_items (tri (snd (trans_write_commit env s))) = reserved_items (tri s)
   \<and> reserved_vals (tri (snd (trans_write_commit env s))) = reserved_vals (tri s)
   \<and> holders (tri (snd (trans_write_commit env s))) = holders (tri s)"
proof -
  obtain ret calls s1 where d: "trans_write_dirty env s = (ret, calls, s1)"
    by (cases "trans_write_dirty env s") auto
  have "tri s1 = tri s" "journal_info s1 = journal_info s"
    using tri_write_dirty [of env s] journal_info_write_dirty [of env s] d by simp_all
  then show ?thesis
    by (simp add: trans_write_commit_def d WARN_ON_ONCE_def
        scoutfs_trans_restart_sync_deadline_def)
qed

lemma write_wait_inv: "trans_inv s \<Longrightarrow> trans_inv (write_state (trans_write_wait env s))"
proof -
  assume i: "trans_inv s"
  let ?s1 = "s\<lparr>tri := (tri s)\<lparr>writing := True\<rparr>\<rparr>"
  have i1: "trans_inv ?s1" by (rule trans_inv_same [OF i]) simp_all
  have i2: "trans_inv (snd (trans_write_commit env ?s1))"
    by (rule trans_inv_same [OF i1]) (simp_all add: write_commit_frame)
  show ?thesis
    using i1 i2 by (auto simp add: trans_write_wait_def drained_holders_def Let_def split: prod.splits)
qed

lemma write_func_inv:
  "trans_inv s \<Longrightarrow> trans_inv (write_state (scoutfs_trans_write_func env t s))"
proof -
  assume i: "trans_inv s"
  have "trans_inv (s\<lparr>trans_task := Some t\<rparr>)" by (rule trans_inv_same [OF i]) simp_all
  then show ?thesis by (simp add: scoutfs_trans_write_func_def write_wait_inv)
qed

lemma sync_inv:
  "trans_inv s \<Longrightarrow> scoutfs_trans_sync wait s = Sync_returned r s' \<or>
     scoutfs_trans_sync wait s = Sync_waiting a s' \<Longrightarrow> trans_inv s'"
proof -
  assume i: "trans_inv s" and r: "scoutfs_trans_sync wait s = Sync_returned r s' \<or>
     scoutfs_trans_sync wait s = Sync_waiting a s'"
  have "s' = queue_trans_work s"
    using r by (auto simp add: scoutfs_trans_sync_def trans_sync_wait_def write_attempted_def
        Let_def split: if_splits)
  then show ?thesis
    by (simp add: trans_inv_same [OF i] queue_trans_work_def)
qed

lemma step_inv:
  assumes "trans_inv s" and "holders_room s x" and "step p s x = Some s'"
  shows "trans_inv s'"
proof (cases x)
  case (Hold t cnt alloc_ok)
  then show ?thesis
    using hold_trans_inv [of s t cnt alloc_ok p] assms
    by (auto split: hold_result.splits)
next
  case (Hold_woken t cnt sg)
  then show ?thesis
    using hold_woken_inv [of s t cnt sg p] assms
    by (auto split: hold_result.splits option.splits)
next
  case (Track t its vls)
  then show ?thesis
    using track_inv [of s t its vls] assms by (auto split: sum.splits)
next
  case (Release t)
  then show ?thesis
    using release_inv [of s t] assms by (auto split: sum.splits)
next
  case (Write_func t env)
  then show ?thesis
    using write_func_inv [of s env t] assms by (auto split: write_result.splits)
next
  case (Write_woken env)
  then show ?thesis
    using write_wait_inv [of s env] assms by (auto split: write_result.splits)
next
  case (Sync wait)
  then show ?thesis
    using sync_inv [of s wait] assms by (auto split: sync_result.splits)
qed

lemma run_inv:
  "trans_inv s \<Longrightarrow> nesting_bounded s ops \<Longrightarrow> run s ops = Some s' \<Longrightarrow> trans_inv s'"
proof (induction ops arbitrary: s)
  case Nil
  then show ?case by simp
next
  case (Cons px ops)
  obtain p x where px: "px = (p, x)" by (cases px) auto
  from Cons.prems px obtain s1 where s1: "step p s x = Some s1" and r: "run s1 ops = Some s'"
    by (auto split: option.splits)
  from Cons.prems px s1 have room: "holders_room s x" and nb: "nesting_bounded s1 ops"
    by auto
  from step_inv [OF Cons.prems(1) room s1] have "trans_inv s1" .
  from Cons.IH [OF this nb r] show ?case .
qed

lemma run_take:
  "run s ops = Some s' \<Longrightarrow> \<exists>s''. run s (take n ops) = Some s''"
proof (induction ops arbitrary: s n)
  case Nil
  then show ?case by simp
next
  case (Cons px ops)
  then show ?case
    by (cases n; cases px) (auto split: option.splits)
qed

lemma nesting_bounded_take:
  "nesting_bounded s ops \<Longrightarrow> nesting_bounded s (take n ops)"
proof (induction ops arbitrary: s n)
  case Nil
  then show ?case by simp
next
  case (Cons px ops)
  then show ?case
    by (cases n; cases px) (auto split: option.splits)
qed

lemma setup_inv:
  "journal_info s0 = [] \<Longrightarrow> scoutfs_setup_trans True True s0 = (r, s) \<Longrightarrow> trans_inv s"
  by (auto simp add: scoutfs_setup_trans_def trans_inv_def trans_sums_def sum_reserved_items_def
      sum_reserved_vals_def sum_holders_def)

lemma nested_hold_step:
  "k \<noteq> 0 \<Longrightarrow>
   step roomy (nested_state k) (Hold 1 \<lparr>items = 1, vals = 0\<rparr> True) = Some (nested_state (k + 1))"
  by (simp add: hold_trans_begin_def hold_trans_entry_def WARN_ON_ONCE_def idle_state_def roomy_def nested_state_def
      get_journal_info_def set_journal_info_def hold_trans_wait_def acquired_hold_def hold_label_def
      new_reservation_def)

lemma nested_hold_run:
  "\<forall>j<n. k + of_nat j \<noteq> 0 \<Longrightarrow>
   run (nested_state k) (replicate n (roomy, Hold 1 \<lparr>items = 1, vals = 0\<rparr> True)) =
     Some (nested_state (k + of_nat n))"
proof (induction n arbitrary: k)
  case 0
  then show ?case by simp
next
  case (Suc n)
  have k: "k \<noteq> 0" using Suc.prems [rule_format, of 0] by simp
  have "\<forall>j<n. (k + 1) + of_nat j \<noteq> 0"
  proof (intro allI impI)
    fix j assume "j < n"
    then have "k + of_nat (Suc j) \<noteq> 0" using Suc.prems [rule_format, of "Suc j"] by simp
    then show "(k + 1) + of_nat j \<noteq> 0" by (simp add: ac_simps)
  qed
  from Suc.IH [OF this]
  have ih: "run (nested_state (k + 1)) (replicate n (roomy, Hold 1 \<lparr>items = 1, vals = 0\<rparr> True)) =
              Some (nested_state (k + 1 + of_nat n))" .
  have e: "k + of_nat (Suc n) = k + 1 + of_nat n" by (simp add: ac_simps)
  show ?case
    by (simp only: replicate_Suc run.simps nested_hold_step [OF k] option.case ih e)
qed

lemma first_hold_nested:
  "step roomy idle_state (Hold 1 \<lparr>items = 1, vals = 0\<rparr> True) = Some (nested_state 1)"
  by (simp add: hold_trans_begin_def hold_trans_entry_def WARN_ON_ONCE_def idle_state_def roomy_def nested_state_def
      get_journal_info_def set_journal_info_def hold_trans_wait_def acquired_hold_def hold_label_def
      new_reservation_def)

lemma wrapped_hold:
  "step roomy (nested_state 0) (Hold 1 \<lparr>items = 1, vals = 0\<rparr> True) = Some wrapped_state"
  by (simp add: hold_trans_begin_def hold_trans_entry_def WARN_ON_ONCE_def idle_state_def roomy_def nested_state_def
      get_journal_info_def set_journal_info_def hold_trans_wait_def acquired_hold_def hold_label_def
      new_reservation_def wrapped_state_def)

lemma no_wrap_before: "\<forall>j < 2 ^ 32 - 1. (1 :: u32) + of_nat j \<noteq> 0"
proof (intro allI impI)
  fix j :: nat assume "j < 2 ^ 32 - 1"
  then have "0 < Suc j" "Suc j < 2 ^ LENGTH(32)" by simp_all
  from of_nat_neq_0 [OF this] show "(1 :: u32) + of_nat j \<noteq> 0" by simp
qed

lemma replicate_split:
  "replicate (2 ^ 32 + 1) x = x # replicate (2 ^ 32 - 1) x @ [x]"
proof -
  have "(2 ^ 32 + 1 :: nat) = Suc (Suc (2 ^ 32 - 1))" by simp
  then show ?thesis by (simp only: replicate_Suc replicate_append_same)
qed

text \<open>
  \<^bold>\<open>C2\<close>, as the claim states it, fails. Task 1 calls hold \<open>2^32 + 1\<close> times with a count of
  one item and never releases. The holders count of its reservation, an \<^verbatim>\<open>unsigned\<close>, is
  0 again after \<open>2^32\<close> holds, so the last hold is taken for a first one: it adds the count
  to the reserved sums a second time. The manager then has 2 items reserved and the one
  live reservation has 1.
\<close>

theorem holders_wrap_counterexample:
  "journal_info idle_state = []
   \<and> scoutfs_setup_trans True True idle_state = (0, idle_state)
   \<and> run idle_state (replicate (2 ^ 32 + 1) (roomy, Hold 1 \<lparr>items = 1, vals = 0\<rparr> True)) =
       Some wrapped_state
   \<and> reserved_items (tri wrapped_state) = 2
   \<and> sum_reserved_items wrapped_state = 1"
proof -
  have "run (nested_state 1) (replicate (2 ^ 32 - 1) (roomy, Hold 1 \<lparr>items = 1, vals = 0\<rparr> True)) =
          Some (nested_state (1 + of_nat (2 ^ 32 - 1)))"
    by (rule nested_hold_run [OF no_wrap_before])
  moreover have "(1 :: u32) + of_nat (2 ^ 32 - 1) = 0" by simp
  ultimately have mid:
    "run (nested_state 1) (replicate (2 ^ 32 - 1) (roomy, Hold 1 \<lparr>items = 1, vals = 0\<rparr> True)) =
          Some (nested_state 0)"
    by (simp only:)
  have all: "run idle_state (replicate (2 ^ 32 + 1) (roomy, Hold 1 \<lparr>items = 1, vals = 0\<rparr> True)) =
       Some wrapped_state"
    by (simp only: replicate_split run.simps first_hold_nested option.case run_append mid
        wrapped_hold)
  have a: "journal_info idle_state = []" by (simp add: idle_state_def)
  have b: "scoutfs_setup_trans True True idle_state = (0, idle_state)"
    by (simp add: scoutfs_setup_trans_def idle_state_def)
  have c: "reserved_items (tri wrapped_state) = 2" by (simp add: wrapped_state_def)
  have d: "sum_reserved_items wrapped_state = 1"
    by (simp add: wrapped_state_def sum_reserved_items_def new_reservation_def)
  from a b all c d show ?thesis by blast
qed

text \<open>
  \<^bold>\<open>C2\<close>, amended. From the state that \<open>scoutfs_setup_trans\<close> leaves when no task has a
  reservation, take any sequence of operations (holds, wake-ups of waiting holders with or
  without a signal, tracks, releases, runs of the commit work, syncs) by any tasks, in
  which no hold is made on a reservation whose holders count is at \<open>2^32 - 1\<close>. After each
  operation, that is after each prefix of the sequence, \<open>reserved_items\<close> and
  \<open>reserved_vals\<close> of the manager are the sums of the \<open>reserved\<close> fields of the live
  reservations and its \<open>holders\<close> is the sum of their holders counts (sums of \<^verbatim>\<open>unsigned\<close>).
\<close>

theorem reserved_sums_invariant:
  assumes "journal_info s0 = []" and "scoutfs_setup_trans True True s0 = (r, s)"
    and "nesting_bounded s ops" and "run s ops = Some s'"
  shows "\<exists>s''. run s (take n ops) = Some s''
           \<and> reserved_items (tri s'') = sum_reserved_items s''
           \<and> reserved_vals (tri s'') = sum_reserved_vals s''
           \<and> holders (tri s'') = sum_holders s''"
proof -
  from run_take [OF assms(4)] obtain s'' where t: "run s (take n ops) = Some s''" by blast
  from run_inv [OF setup_inv [OF assms(1,2)] nesting_bounded_take [OF assms(3)] t]
  have "trans_inv s''" .
  with t show ?thesis by (auto simp add: trans_inv_def trans_sums_def)
qed

theorem reserved_sums_invariant_witness:
  "journal_info idle_state = []
   \<and> scoutfs_setup_trans True True idle_state = (0, idle_state)
   \<and> nesting_bounded idle_state example_ops
   \<and> run idle_state example_ops =
       Some (held_state\<lparr>journal_info :=
               [(1, new_reservation\<lparr>rsv_holders := 1, reserved := \<lparr>items = 10, vals = 1024\<rparr>,
                                     actual := \<lparr>items = 3, vals = 100\<rparr>\<rparr>)]\<rparr>)
   \<and> (\<exists>s''. run idle_state (take 3 example_ops) = Some s''
          \<and> reserved_items (tri s'') = sum_reserved_items s''
          \<and> reserved_vals (tri s'') = sum_reserved_vals s''
          \<and> holders (tri s'') = sum_holders s'')"
proof -
  have a: "journal_info idle_state = []" by (simp add: idle_state_def)
  have b: "scoutfs_setup_trans True True idle_state = (0, idle_state)"
    by (simp add: scoutfs_setup_trans_def idle_state_def)
  have r: "run idle_state example_ops =
       Some (held_state\<lparr>journal_info :=
               [(1, new_reservation\<lparr>rsv_holders := 1, reserved := \<lparr>items = 10, vals = 1024\<rparr>,
                                     actual := \<lparr>items = 3, vals = 100\<rparr>\<rparr>)]\<rparr>)"
    by (simp add: example_ops_def hold_trans_begin_def hold_trans_entry_def WARN_ON_ONCE_def idle_state_def
        roomy_def held_state_def get_journal_info_def set_journal_info_def clear_journal_info_def
        hold_trans_wait_def acquired_hold_def hold_label_def new_reservation_def
        scoutfs_trans_track_item_def scoutfs_release_trans_def Let_def)
  have c: "nesting_bounded idle_state example_ops"
    by (simp add: example_ops_def hold_trans_begin_def hold_trans_entry_def WARN_ON_ONCE_def idle_state_def
        roomy_def held_state_def get_journal_info_def set_journal_info_def clear_journal_info_def
        hold_trans_wait_def acquired_hold_def hold_label_def new_reservation_def
        scoutfs_trans_track_item_def scoutfs_release_trans_def Let_def)
  from reserved_sums_invariant [OF a b c r, of 3] a b c r show ?thesis by blast
qed

end
